theory Spec2Isabelle
  imports Main "HOL-Library.Multiset"
begin

section \<open>The syntax tree consumed by the code review script\<close>

text \<open>
  The notebook's first code cell defines \<^verbatim>\<open>analyze_python_script(file_path)\<close>. It reads
  a file, parses it with \<^verbatim>\<open>ast.parse\<close> and inspects the tree through four things only:
  \<^verbatim>\<open>ast.walk\<close>, \<^verbatim>\<open>isinstance\<close> against \<^verbatim>\<open>ast.For\<close>, \<^verbatim>\<open>ast.Import\<close> and \<^verbatim>\<open>ast.Name\<close>,
  the attributes \<^verbatim>\<open>lineno\<close>, \<^verbatim>\<open>names[0].name\<close> and \<^verbatim>\<open>id\<close>, and \<^verbatim>\<open>tree.body\<close>.

  A node is therefore its class (with the scalar fields the script reads), its line
  number and its child nodes in the order \<^verbatim>\<open>ast.iter_child_nodes\<close> yields them (field
  order, list fields flattened). Every class the script does not test for is \<open>Other\<close>
  with the class name. \<^verbatim>\<open>ast.While\<close> is kept apart so that it can be talked about.
  The grammar gives an \<^verbatim>\<open>import\<close> statement at least one clause, so \<^verbatim>\<open>names\<close> is a head
  and a tail and \<^verbatim>\<open>names[0]\<close> is the head.
\<close>

datatype import_alias = Alias (name: string) (asname: "string option")

datatype node_class =
    Module
  | For
  | While
  | Import import_alias "import_alias list"
  | ImportFrom "string option" "import_alias list" nat
  | Name string
  | Other string

datatype node = Node (cls: node_class) (lineno: nat) (children: "node list")

datatype error = IOError | SyntaxError

fun isFor :: "node \<Rightarrow> bool" where
  "isFor (Node For l ch) = True"
| "isFor (Node c l ch) = False"

fun isWhile :: "node \<Rightarrow> bool" where
  "isWhile (Node While l ch) = True"
| "isWhile (Node c l ch) = False"

fun isImport :: "node \<Rightarrow> bool" where
  "isImport (Node (Import a as) l ch) = True"
| "isImport (Node c l ch) = False"

fun isName :: "node \<Rightarrow> bool" where
  "isName (Node (Name x) l ch) = True"
| "isName (Node c l ch) = False"

text \<open>\<^verbatim>\<open>node.names[0].name\<close> of an \<^verbatim>\<open>ast.Import\<close> node, and \<^verbatim>\<open>node.id\<close> of an \<^verbatim>\<open>ast.Name\<close>
  node. Both are only ever applied behind the matching \<^verbatim>\<open>isinstance\<close> filter.\<close>

fun names0_name :: "node \<Rightarrow> string" where
  "names0_name (Node (Import a as) l ch) = name a"
| "names0_name (Node c l ch) = []"

fun name_id :: "node \<Rightarrow> string" where
  "name_id (Node (Name x) l ch) = x"
| "name_id (Node c l ch) = []"

text \<open>\<^verbatim>\<open>tree.body\<close> of the \<^verbatim>\<open>ast.Module\<close> that \<^verbatim>\<open>ast.parse\<close> returns. Without type comments
  the module's other field, \<^verbatim>\<open>type_ignores\<close>, is empty, so the body is the child list.\<close>

definition body :: "node \<Rightarrow> node list" where
  "body tree = children tree"

section \<open>ast.walk\<close>

text \<open>
  \<^verbatim>\<open>
  def walk(node):
      todo = deque([node])
      while todo:
          node = todo.popleft()
          todo.extend(iter_child_nodes(node))
          yield node
  \<close>
  The loop runs on the queue \<open>todo\<close>; it ends because every step replaces a node by
  its children.
\<close>

definition iter_child_nodes :: "node \<Rightarrow> node list" where
  "iter_child_nodes n = children n"

fun node_count :: "node \<Rightarrow> nat" where
  "node_count (Node c l ch) = Suc (sum_list (map node_count ch))"

function walk_todo :: "node list \<Rightarrow> node list" where
  "walk_todo [] = []"
| "walk_todo (n # todo) = n # walk_todo (todo @ iter_child_nodes n)"
  by pat_completeness auto
termination
proof (relation "measure (\<lambda>todo. sum_list (map node_count todo))")
  show "wf (measure (\<lambda>todo. sum_list (map node_count todo)))"
    by simp
next
  fix n :: node and todo :: "node list"
  show "(todo @ iter_child_nodes n, n # todo) \<in> measure (\<lambda>todo. sum_list (map node_count todo))"
    by (cases n) (simp add: iter_child_nodes_def)
qed

definition walk :: "node \<Rightarrow> node list" where
  "walk n = walk_todo [n]"

section \<open>The analysis\<close>

text \<open>\<^verbatim>\<open>str\<close> of a line number, as the f-string renders it.\<close>

definition digit_char :: "nat \<Rightarrow> char" where
  "digit_char d = ''0123456789'' ! (d mod 10)"

function str_nat :: "nat \<Rightarrow> string" where
  "str_nat n = (if n < 10 then [digit_char n] else str_nat (n div 10) @ [digit_char (n mod 10)])"
  by pat_completeness auto
termination
  by (relation "measure (\<lambda>n. n)") auto

declare str_nat.simps [simp del]

definition nested_loop_msg :: "nat \<Rightarrow> string" where
  "nested_loop_msg l = ''Inefficient nested loop found at line '' @ str_nat l"

definition unused_import_msg :: "string \<Rightarrow> string" where
  "unused_import_msg m = ''Unused import: '' @ m"

text \<open>
  \<^verbatim>\<open>
  issues = []
  for node in ast.walk(tree):
      if isinstance(node, ast.For) and any(isinstance(child, ast.For) for child in ast.walk(node)):
          issues.append(f"Inefficient nested loop found at line {node.lineno}")
  \<close>
\<close>

definition check_loops :: "node \<Rightarrow> string list" where
  "check_loops tree =
     foldl (\<lambda>issues node.
              if isFor node \<and> list_ex isFor (walk node)
              then issues @ [nested_loop_msg (lineno node)]
              else issues)
           [] (walk tree)"

text \<open>
  \<^verbatim>\<open>
  imported_modules = {node.names[0].name for node in tree.body if isinstance(node, ast.Import)}
  used_modules = {node.id for node in ast.walk(tree) if isinstance(node, ast.Name)}
  unused_imports = imported_modules - used_modules
  \<close>
  A Python set of strings is modelled by the duplicate-free list of its elements. The
  order in which \<^verbatim>\<open>for unused in unused_imports\<close> meets them is not fixed by the language:
  it follows the hash table, and string hashes are salted per interpreter process. That
  order is the parameter \<open>set_iter\<close>, of which only \<open>set_order\<close> is known: it returns
  the elements it is given, each once.
\<close>

definition set_order :: "(string list \<Rightarrow> string list) \<Rightarrow> bool" where
  "set_order set_iter = (\<forall>xs. distinct xs \<longrightarrow> set (set_iter xs) = set xs \<and> distinct (set_iter xs))"

definition imported_modules :: "node \<Rightarrow> string list" where
  "imported_modules tree = remdups (map names0_name (filter isImport (body tree)))"

definition used_modules :: "node \<Rightarrow> string list" where
  "used_modules tree = remdups (map name_id (filter isName (walk tree)))"

definition unused_imports :: "node \<Rightarrow> string list" where
  "unused_imports tree =
     filter (\<lambda>m. m \<notin> set (used_modules tree)) (imported_modules tree)"

text \<open>
  \<^verbatim>\<open>
  for unused in unused_imports:
      issues.append(f"Unused import: {unused}")
  return issues
  \<close>
\<close>

definition analyze :: "(string list \<Rightarrow> string list) \<Rightarrow> node \<Rightarrow> string list" where
  "analyze set_iter tree =
     foldl (\<lambda>issues unused. issues @ [unused_import_msg unused])
           (check_loops tree) (set_iter (unused_imports tree))"

text \<open>
  \<^verbatim>\<open>
  with open(file_path, "r", encoding="utf-8") as file:
      tree = ast.parse(file.read())
  \<close>
  The file system maps a path to the text of the file, and \<^verbatim>\<open>ast.parse\<close> is the
  parameter \<open>parse\<close>: it returns the module node or raises. An exception raised by
  either step leaves the function at once.
\<close>

definition analyze_python_script ::
  "(string list \<Rightarrow> string list) \<Rightarrow> (string \<Rightarrow> error + node) \<Rightarrow> (string \<rightharpoonup> string) \<Rightarrow> string
     \<Rightarrow> error + string list" where
  "analyze_python_script set_iter parse fs file_path =
     (case fs file_path of
        None \<Rightarrow> Inl IOError
      | Some text \<Rightarrow>
          (case parse text of
             Inl e \<Rightarrow> Inl e
           | Inr tree \<Rightarrow> Inr (analyze set_iter tree)))"

section \<open>Notions of the specification\<close>

text \<open>
  The specification speaks of a node's subtree and of a depth-first pre-order visit.
  \<open>subnodes n\<close> lists the subtree of \<open>n\<close> in pre-order, \<open>n\<close> first;
  \<open>descendants n\<close> is the subtree without \<open>n\<close> itself.
\<close>

fun subnodes :: "node \<Rightarrow> node list" where
  "subnodes (Node c l ch) = Node c l ch # concat (map subnodes ch)"

definition descendants :: "node \<Rightarrow> node list" where
  "descendants n = concat (map subnodes (children n))"

text \<open>A loop that the specification calls nested: some other loop lies below it.\<close>

definition spec_nested_loop :: "node \<Rightarrow> bool" where
  "spec_nested_loop n = (isFor n \<and> list_ex isFor (descendants n))"

text \<open>The names the identifier references of the whole tree carry.\<close>

definition referenced_names :: "node \<Rightarrow> string list" where
  "referenced_names tree = map name_id (filter isName (subnodes tree))"

text \<open>The declared names of all clauses of the top-level \<^verbatim>\<open>import\<close> and
  \<^verbatim>\<open>from ... import\<close> statements: what the specification calls the names introduced by
  top-level import statements.\<close>

fun clause_names :: "node \<Rightarrow> string list" where
  "clause_names (Node (Import a as) l ch) = map name (a # as)"
| "clause_names (Node (ImportFrom m as lvl) l ch) = map name as"
| "clause_names (Node c l ch) = []"

definition spec_introduced_names :: "node \<Rightarrow> string list" where
  "spec_introduced_names tree = concat (map clause_names (body tree))"

text \<open>The declared names of the second and later clauses of the top-level \<^verbatim>\<open>import\<close>
  statements and of all clauses of the top-level \<^verbatim>\<open>from ... import\<close> statements: the
  names of which the specification says that they never enter the imported set.\<close>

fun later_clause_names :: "node \<Rightarrow> string list" where
  "later_clause_names (Node (Import a as) l ch) = map name as"
| "later_clause_names (Node (ImportFrom m as lvl) l ch) = map name as"
| "later_clause_names (Node c l ch) = []"

definition spec_later_names :: "node \<Rightarrow> string list" where
  "spec_later_names tree = concat (map later_clause_names (body tree))"

text \<open>The names the script collects: \<^verbatim>\<open>names[0].name\<close> of each top-level \<^verbatim>\<open>ast.Import\<close>.\<close>

definition first_clause_names :: "node \<Rightarrow> string list" where
  "first_clause_names tree = map names0_name (filter isImport (body tree))"

text \<open>The two categories of findings, told apart by the fixed part of the message.\<close>

definition is_nested_loop :: "string \<Rightarrow> bool" where
  "is_nested_loop s = (take 38 s = ''Inefficient nested loop found at line '')"

definition is_unused_import :: "string \<Rightarrow> bool" where
  "is_unused_import s = (take 15 s = ''Unused import: '')"

text \<open>The test the script applies to a node before it reports a loop, as written.\<close>

definition reported_loop :: "node \<Rightarrow> bool" where
  "reported_loop n = (isFor n \<and> list_ex isFor (walk n))"

text \<open>A tree in which every \<^verbatim>\<open>while\<close> statement has been replaced by a node of some
  class that is no loop at all, with the same children.\<close>

fun demote_while :: "node \<Rightarrow> node" where
  "demote_while (Node c l ch) =
     Node (if c = While then Other ''While'' else c) l (map demote_while ch)"

text \<open>Two orders in which a set may hand out its elements.\<close>

definition insertion_order :: "string list \<Rightarrow> string list" where
  "insertion_order xs = xs"

definition reverse_order :: "string list \<Rightarrow> string list" where
  "reverse_order xs = rev xs"

text \<open>The nodes below a list of roots level by level: the roots from left to right,
  then all their children from left to right, and so on. A loop nearer the root comes
  before a deeper one, whatever statement it belongs to.\<close>

function level_order :: "node list \<Rightarrow> node list" where
  "level_order [] = []"
| "level_order (n # ns) = (n # ns) @ level_order (concat (map children (n # ns)))"
  by pat_completeness auto
termination
proof (relation "measure (\<lambda>ns. sum_list (map node_count ns))")
  show "wf (measure (\<lambda>ns. sum_list (map node_count ns)))"
    by simp
next
  fix n :: node and ns :: "node list"
  have step: "sum_list (map node_count (concat (map children ms))) + length ms
      = sum_list (map node_count ms)" for ms
  proof (induction ms)
    case Nil
    show ?case by simp
  next
    case (Cons m ms)
    then show ?case by (cases m) simp
  qed
  have "sum_list (map node_count (concat (map children (n # ns))))
      < sum_list (map node_count (n # ns))"
    using step [of "n # ns"] by simp
  then show "(concat (map children (n # ns)), n # ns)
      \<in> measure (\<lambda>ns. sum_list (map node_count ns))"
    by simp
qed

text \<open>The nested-loop findings a pre-order visit would produce with the script's own
  test.\<close>

definition preorder_loop_findings :: "node \<Rightarrow> string list" where
  "preorder_loop_findings tree =
     map nested_loop_msg (map lineno (filter reported_loop (subnodes tree)))"

section \<open>Example scripts\<close>

text \<open>Leaves that occur everywhere: expression contexts, a \<^verbatim>\<open>pass\<close> statement, names.\<close>

definition Load :: node where
  "Load = Node (Other ''Load'') 0 []"

definition Store :: node where
  "Store = Node (Other ''Store'') 0 []"

definition load_name :: "nat \<Rightarrow> string \<Rightarrow> node" where
  "load_name l x = Node (Name x) l [Load]"

definition store_name :: "nat \<Rightarrow> string \<Rightarrow> node" where
  "store_name l x = Node (Name x) l [Store]"

definition Pass :: "nat \<Rightarrow> node" where
  "Pass l = Node (Other ''Pass'') l []"

definition alias_leaf :: "nat \<Rightarrow> node" where
  "alias_leaf l = Node (Other ''alias'') l []"

text \<open>\<^verbatim>\<open>for <target> in <iter>: <body>\<close> at line \<open>l\<close>; the children are the target, the
  iterable and the statements of the body.\<close>

definition for_stmt :: "nat \<Rightarrow> string \<Rightarrow> string \<Rightarrow> node list \<Rightarrow> node" where
  "for_stmt l target iter body_stmts =
     Node For l (store_name l target # load_name l iter # body_stmts)"

definition while_stmt :: "nat \<Rightarrow> string \<Rightarrow> node list \<Rightarrow> node" where
  "while_stmt l test body_stmts = Node While l (load_name l test # body_stmts)"

text \<open>
  \<^verbatim>\<open>
  for i in numbers:
      pass
  \<close>
\<close>

definition single_loop :: node where
  "single_loop = Node Module 0 [for_stmt 1 ''i'' ''numbers'' [Pass 2]]"

text \<open>
  \<^verbatim>\<open>
  for i in numbers:
      for j in numbers:
          pass
  \<close>
\<close>

definition double_loop :: node where
  "double_loop =
     Node Module 0 [for_stmt 1 ''i'' ''numbers'' [for_stmt 2 ''j'' ''numbers'' [Pass 3]]]"

text \<open>
  \<^verbatim>\<open>
  for a in xs:
      for b in xs:
          for c in xs:
              pass
  \<close>
\<close>

definition triple_loop :: node where
  "triple_loop =
     Node Module 0
       [for_stmt 1 ''a'' ''xs'' [for_stmt 2 ''b'' ''xs'' [for_stmt 3 ''c'' ''xs'' [Pass 4]]]]"

text \<open>
  \<^verbatim>\<open>
  for a in xs:
      for b in xs:
          for c in xs:
              pass
  for d in xs:
      for e in xs:
          pass
  \<close>
\<close>

definition two_nests :: node where
  "two_nests =
     Node Module 0
       [for_stmt 1 ''a'' ''xs'' [for_stmt 2 ''b'' ''xs'' [for_stmt 3 ''c'' ''xs'' [Pass 4]]],
        for_stmt 5 ''d'' ''xs'' [for_stmt 6 ''e'' ''xs'' [Pass 7]]]"

text \<open>\<^verbatim>\<open>import a, b\<close>\<close>

definition import_a_b :: node where
  "import_a_b =
     Node Module 0
       [Node (Import (Alias ''a'' None) [Alias ''b'' None]) 1 [alias_leaf 1, alias_leaf 1]]"

text \<open>
  \<^verbatim>\<open>
  import a
  import b
  \<close>
\<close>

definition two_imports :: node where
  "two_imports =
     Node Module 0
       [Node (Import (Alias ''a'' None) []) 1 [alias_leaf 1],
        Node (Import (Alias ''b'' None) []) 2 [alias_leaf 2]]"

text \<open>
  \<^verbatim>\<open>
  import a, b
  from m import y
  \<close>
\<close>

definition later_clauses :: node where
  "later_clauses =
     Node Module 0
       [Node (Import (Alias ''a'' None) [Alias ''b'' None]) 1 [alias_leaf 1, alias_leaf 1],
        Node (ImportFrom (Some ''m'') [Alias ''y'' None] 0) 2 [alias_leaf 2]]"

text \<open>
  \<^verbatim>\<open>
  import a, b
  import b
  \<close>
\<close>

definition import_b_again :: node where
  "import_b_again =
     Node Module 0
       [Node (Import (Alias ''a'' None) [Alias ''b'' None]) 1 [alias_leaf 1, alias_leaf 1],
        Node (Import (Alias ''b'' None) []) 2 [alias_leaf 2]]"

text \<open>
  \<^verbatim>\<open>
  import os
  def outer():
      def inner():
          return os
  \<close>
\<close>

definition nested_use :: node where
  "nested_use =
     Node Module 0
       [Node (Import (Alias ''os'' None) []) 1 [alias_leaf 1],
        Node (Other ''FunctionDef'') 2
          [Node (Other ''arguments'') 0 [],
           Node (Other ''FunctionDef'') 3
             [Node (Other ''arguments'') 0 [],
              Node (Other ''Return'') 4 [load_name 4 ''os'']]]]"

text \<open>
  \<^verbatim>\<open>
  while a:
      while b:
          pass
  \<close>
\<close>

definition while_in_while :: node where
  "while_in_while = Node Module 0 [while_stmt 1 ''a'' [while_stmt 2 ''b'' [Pass 3]]]"

text \<open>
  \<^verbatim>\<open>
  for i in xs:
      while c:
          pass
  \<close>
\<close>

definition while_in_for :: node where
  "while_in_for = Node Module 0 [for_stmt 1 ''i'' ''xs'' [while_stmt 2 ''c'' [Pass 3]]]"

text \<open>
  The notebook's own example, the script it says to analyse:
  \<^verbatim>\<open>
   1  import numpy as np  # Unused import
   2  import random
   3
   4  # Function with an inefficient nested loop
   5  def slow_function(numbers):
   6      result = []
   7      for i in numbers:
   8          for j in numbers:  # Inefficient nested loop
   9              if i * j > 10:
  10                  result.append((i, j))
  11      return result
  12
  13  data = [random.randint(1, 5) for _ in range(5)]
  14  print(slow_function(data))
  \<close>
\<close>

definition example_script :: node where
  "example_script =
     Node Module 0
       [Node (Import (Alias ''numpy'' (Some ''np'')) []) 1 [alias_leaf 1],
        Node (Import (Alias ''random'' None) []) 2 [alias_leaf 2],
        Node (Other ''FunctionDef'') 5
          [Node (Other ''arguments'') 0 [Node (Other ''arg'') 5 []],
           Node (Other ''Assign'') 6 [store_name 6 ''result'', Node (Other ''List'') 6 [Load]],
           Node For 7
             [store_name 7 ''i'', load_name 7 ''numbers'',
              Node For 8
                [store_name 8 ''j'', load_name 8 ''numbers'',
                 Node (Other ''If'') 9
                   [Node (Other ''Compare'') 9
                      [Node (Other ''BinOp'') 9
                         [load_name 9 ''i'', Node (Other ''Mult'') 0 [], load_name 9 ''j''],
                       Node (Other ''Gt'') 0 [],
                       Node (Other ''Constant'') 9 []],
                    Node (Other ''Expr'') 10
                      [Node (Other ''Call'') 10
                         [Node (Other ''Attribute'') 10 [load_name 10 ''result'', Load],
                          Node (Other ''Tuple'') 10
                            [load_name 10 ''i'', load_name 10 ''j'', Load]]]]]],
           Node (Other ''Return'') 11 [load_name 11 ''result'']],
        Node (Other ''Assign'') 13
          [store_name 13 ''data'',
           Node (Other ''ListComp'') 13
             [Node (Other ''Call'') 13
                [Node (Other ''Attribute'') 13 [load_name 13 ''random'', Load],
                 Node (Other ''Constant'') 13 [],
                 Node (Other ''Constant'') 13 []],
              Node (Other ''comprehension'') 0
                [store_name 13 ''_'',
                 Node (Other ''Call'') 13
                   [load_name 13 ''range'', Node (Other ''Constant'') 13 []]]]],
        Node (Other ''Expr'') 14
          [Node (Other ''Call'') 14
             [load_name 14 ''print'',
              Node (Other ''Call'') 14
                [load_name 14 ''slow_function'', load_name 14 ''data'']]]]"

text \<open>
  What \<^verbatim>\<open>ast.parse\<close> does on three texts: the two-line script \<^verbatim>\<open>import a\<close>,
  \<^verbatim>\<open>import b\<close> parses to \<open>two_imports\<close>, the one-line script \<^verbatim>\<open>import a, b\<close> parses to
  \<open>import_a_b\<close>, and the unbalanced \<^verbatim>\<open>print(\<close> is a syntax error. No other text is
  given to \<open>parse_fragment\<close> below.
\<close>

definition two_imports_text :: string where
  "two_imports_text = ''import a'' @ [CHR 0x0A] @ ''import b'' @ [CHR 0x0A]"

definition parse_fragment :: "string \<Rightarrow> error + node" where
  "parse_fragment text =
     (if text = two_imports_text then Inr two_imports
      else if text = ''import a, b'' then Inr import_a_b
      else Inl SyntaxError)"

definition example_fs :: "string \<rightharpoonup> string" where
  "example_fs =
     [''example_script.py'' \<mapsto> two_imports_text,
      ''one_line.py'' \<mapsto> ''import a, b'',
      ''broken.py'' \<mapsto> ''print('']"

section \<open>Loops that build a list\<close>

lemma foldl_snoc_if:
  "foldl (\<lambda>acc x. if P x then acc @ [f x] else acc) acc0 xs = acc0 @ map f (filter P xs)"
  by (induction xs arbitrary: acc0) auto

lemma foldl_snoc:
  "foldl (\<lambda>acc x. acc @ [f x]) acc0 xs = acc0 @ map f xs"
  by (induction xs arbitrary: acc0) auto

section \<open>What the walk visits\<close>

lemma set_walk_todo:
  "set (walk_todo todo) = (\<Union>n \<in> set todo. set (subnodes n))"
proof (induction todo rule: walk_todo.induct)
  case 1
  show ?case by simp
next
  case (2 n todo)
  have "set (subnodes n) = insert n (\<Union>k \<in> set (iter_child_nodes n). set (subnodes k))"
    by (cases n) (simp add: iter_child_nodes_def)
  with 2 show ?case by auto
qed

lemma set_walk: "set (walk n) = set (subnodes n)"
  unfolding walk_def set_walk_todo by simp

lemma walk_head: "walk n = n # walk_todo (iter_child_nodes n)"
  by (simp add: walk_def)

lemma walk_todo_append:
  "walk_todo (q @ r) = q @ walk_todo (r @ concat (map children q))"
proof (induction q arbitrary: r)
  case Nil
  show ?case by simp
next
  case (Cons n q)
  have "walk_todo ((n # q) @ r) = n # walk_todo (q @ (r @ children n))"
    by (simp add: iter_child_nodes_def)
  also have "\<dots> = n # q @ walk_todo ((r @ children n) @ concat (map children q))"
    by (simp only: Cons.IH)
  finally show ?case by simp
qed

lemma walk_todo_level_order: "walk_todo q = level_order q"
proof (induction q rule: level_order.induct)
  case 1
  show ?case by simp
next
  case (2 n ns)
  have "walk_todo (n # ns) = (n # ns) @ walk_todo (concat (map children (n # ns)))"
    using walk_todo_append [of "n # ns" "[]"] by simp
  with 2 show ?case by simp
qed

lemma walk_level_order: "walk n = level_order [n]"
  by (simp only: walk_def walk_todo_level_order)

section \<open>The result as two lists\<close>

lemma check_loops_eq:
  "check_loops tree = map nested_loop_msg (map lineno (filter reported_loop (walk tree)))"
  unfolding check_loops_def reported_loop_def by (simp add: foldl_snoc_if)

lemma analyze_eq:
  "analyze set_iter tree =
     map nested_loop_msg (map lineno (filter reported_loop (walk tree)))
     @ map unused_import_msg (set_iter (unused_imports tree))"
  unfolding analyze_def by (simp add: foldl_snoc check_loops_eq)

lemma is_nested_loop_msg [simp]: "is_nested_loop (nested_loop_msg l)"
  by (simp add: is_nested_loop_def nested_loop_msg_def)

lemma not_nested_unused_msg [simp]: "\<not> is_nested_loop (unused_import_msg m)"
  by (simp add: is_nested_loop_def unused_import_msg_def)

lemma is_unused_import_msg [simp]: "is_unused_import (unused_import_msg m)"
  by (simp add: is_unused_import_def unused_import_msg_def)

lemma not_unused_nested_msg [simp]: "\<not> is_unused_import (nested_loop_msg l)"
  by (simp add: is_unused_import_def nested_loop_msg_def)

lemma unused_msg_inj [simp]: "(unused_import_msg a = unused_import_msg b) = (a = b)"
  by (simp add: unused_import_msg_def)

lemma unused_msg_neq_nested [simp]: "unused_import_msg m \<noteq> nested_loop_msg l"
  by (simp add: unused_import_msg_def nested_loop_msg_def)

lemma nested_msg_neq_unused [simp]: "nested_loop_msg l \<noteq> unused_import_msg m"
  by (simp add: unused_import_msg_def nested_loop_msg_def)

lemma filter_nested_loop_msgs:
  "filter is_nested_loop (map nested_loop_msg ls) = map nested_loop_msg ls"
  by (induction ls) simp_all

lemma filter_nested_unused_msgs: "filter is_nested_loop (map unused_import_msg ms) = []"
  by (induction ms) simp_all

lemma filter_nested_analyze:
  "filter is_nested_loop (analyze set_iter tree) =
     map nested_loop_msg (map lineno (filter reported_loop (walk tree)))"
  by (simp only: analyze_eq filter_append filter_nested_loop_msgs filter_nested_unused_msgs append_Nil2)

section \<open>The unused imports\<close>

lemma set_used_modules: "set (used_modules tree) = set (referenced_names tree)"
  by (simp add: used_modules_def referenced_names_def set_walk)

lemma set_unused_imports:
  "set (unused_imports tree) = set (first_clause_names tree) - set (referenced_names tree)"
  unfolding unused_imports_def imported_modules_def first_clause_names_def set_used_modules
  by auto

lemma distinct_unused_imports: "distinct (unused_imports tree)"
  by (simp add: unused_imports_def imported_modules_def)

lemma set_order_set:
  "set_order set_iter \<Longrightarrow> distinct xs \<Longrightarrow> set (set_iter xs) = set xs"
  by (simp add: set_order_def)

lemma set_order_distinct:
  "set_order set_iter \<Longrightarrow> distinct xs \<Longrightarrow> distinct (set_iter xs)"
  by (simp add: set_order_def)

lemma set_order_insertion: "set_order insertion_order"
  by (simp add: set_order_def insertion_order_def)

lemma set_order_reverse: "set_order reverse_order"
  by (simp add: set_order_def reverse_order_def)

lemma unused_msg_in_analyze:
  assumes "set_order set_iter"
  shows "(unused_import_msg N \<in> set (analyze set_iter tree)) =
         (N \<in> set (first_clause_names tree) \<and> N \<notin> set (referenced_names tree))"
proof -
  have "set (set_iter (unused_imports tree)) = set (unused_imports tree)"
    using assms distinct_unused_imports by (rule set_order_set)
  moreover have "unused_import_msg N \<notin> set (map nested_loop_msg ls)" for ls
    by (induction ls) simp_all
  ultimately show ?thesis
    unfolding analyze_eq set_append set_map by (auto simp: set_unused_imports)
qed

lemma count_list_map_inj:
  "inj f \<Longrightarrow> count_list (map f xs) (f x) = count_list xs x"
  by (induction xs) (auto dest: injD)

lemma count_list_distinct:
  "distinct xs \<Longrightarrow> count_list xs x = (if x \<in> set xs then 1 else 0)"
  by (induction xs) auto

lemma count_list_notin: "x \<notin> set xs \<Longrightarrow> count_list xs x = 0"
  by (induction xs) auto


section \<open>Replacing while statements\<close>

lemma children_demote_while: "children (demote_while n) = map demote_while (children n)"
  by (cases n) simp

lemma lineno_demote_while [simp]: "lineno (demote_while n) = lineno n"
  by (cases n) simp

lemma isFor_demote_while [simp]: "isFor (demote_while n) = isFor n"
  by (cases n rule: isFor.cases) simp_all

lemma isName_demote_while [simp]: "isName (demote_while n) = isName n"
  by (cases n rule: isName.cases) simp_all

lemma isImport_demote_while [simp]: "isImport (demote_while n) = isImport n"
  by (cases n rule: isImport.cases) simp_all

lemma name_id_demote_while [simp]: "name_id (demote_while n) = name_id n"
  by (cases n rule: name_id.cases) simp_all

lemma names0_name_demote_while [simp]: "names0_name (demote_while n) = names0_name n"
  by (cases n rule: names0_name.cases) simp_all

lemma walk_todo_demote_while:
  "walk_todo (map demote_while todo) = map demote_while (walk_todo todo)"
proof (induction todo rule: walk_todo.induct)
  case 1
  show ?case by simp
next
  case (2 n todo)
  then show ?case
    by (simp add: iter_child_nodes_def children_demote_while)
qed

lemma walk_demote_while: "walk (demote_while n) = map demote_while (walk n)"
  using walk_todo_demote_while [of "[n]"] by (simp only: walk_def list.map)

lemma reported_loop_demote_while [simp]: "reported_loop (demote_while n) = reported_loop n"
  by (simp add: reported_loop_def walk_demote_while list_ex_iff)

lemma check_loops_demote_while: "check_loops (demote_while tree) = check_loops tree"
  by (simp add: check_loops_eq walk_demote_while filter_map comp_def)

lemma used_modules_demote_while: "used_modules (demote_while tree) = used_modules tree"
  by (simp add: used_modules_def walk_demote_while filter_map comp_def)

lemma imported_modules_demote_while:
  "imported_modules (demote_while tree) = imported_modules tree"
  by (simp add: imported_modules_def body_def children_demote_while filter_map comp_def)

lemma unused_imports_demote_while: "unused_imports (demote_while tree) = unused_imports tree"
  by (simp add: unused_imports_def used_modules_demote_while imported_modules_demote_while)

lemma analyze_demote_while: "analyze set_iter (demote_while tree) = analyze set_iter tree"
  by (simp add: analyze_def check_loops_demote_while unused_imports_demote_while)

section \<open>The loop test\<close>

text \<open>\<^verbatim>\<open>ast.walk(node)\<close> yields \<open>node\<close> itself first, so the \<^verbatim>\<open>any(...)\<close> of the test
  is met by every \<^verbatim>\<open>for\<close> statement through itself.\<close>

lemma reported_loop_iff: "reported_loop n = isFor n"
  by (auto simp: reported_loop_def walk_head)

section \<open>Findings in two parts\<close>

lemma two_part_order:
  assumes xs: "\<forall>x \<in> set xs. \<not> Q x"
    and ys: "\<forall>y \<in> set ys. \<not> P y"
    and i: "i < length (xs @ ys)" "P ((xs @ ys) ! i)"
    and j: "j < length (xs @ ys)" "Q ((xs @ ys) ! j)"
  shows "i < j"
proof -
  have "i < length xs"
  proof (rule ccontr)
    assume n: "\<not> i < length xs"
    with i(1) have "ys ! (i - length xs) \<in> set ys"
      by simp
    with ys have "\<not> P (ys ! (i - length xs))"
      by blast
    with n i(2) show False
      by (simp add: nth_append)
  qed
  moreover have "\<not> j < length xs"
  proof
    assume l: "j < length xs"
    then have "xs ! j \<in> set xs"
      by simp
    with xs have "\<not> Q (xs ! j)"
      by blast
    with l j(2) show False
      by (simp add: nth_append)
  qed
  ultimately show ?thesis
    by simp
qed

lemma mset_set_order:
  assumes "set_order it1" and "set_order it2" and "distinct xs"
  shows "mset (it1 xs) = mset (it2 xs)"
proof -
  have "set (it1 xs) = set (it2 xs)"
    using assms by (simp add: set_order_set)
  moreover have "distinct (it1 xs)" and "distinct (it2 xs)"
    using assms by (simp_all add: set_order_distinct)
  ultimately show ?thesis
    by (simp add: set_eq_iff_mset_eq_distinct)
qed

lemma short_mset_eq:
  assumes "mset xs = mset ys" and "length xs \<le> 1"
  shows "xs = ys"
proof (cases xs)
  case Nil
  with assms(1) show ?thesis by simp
next
  case (Cons x xs')
  with assms(2) have xs: "xs = [x]" by simp
  with assms(1) have "mset ys = {#x#}" by simp
  then have "ys = [x]" by (simp add: mset_single_iff_right)
  with xs show ?thesis by simp
qed

lemma filter_unused_analyze:
  "filter is_unused_import (analyze set_iter tree) =
     map unused_import_msg (set_iter (unused_imports tree))"
proof -
  have "filter is_unused_import (map nested_loop_msg ls) = []" for ls
    by (induction ls) simp_all
  moreover have "filter is_unused_import (map unused_import_msg ms)
      = map unused_import_msg ms" for ms
    by (induction ms) simp_all
  ultimately show ?thesis
    by (simp only: analyze_eq filter_append append_Nil)
qed

lemma analyze_two_orders:
  assumes "set_order it1" and "set_order it2"
  shows "filter is_nested_loop (analyze it1 tree) = filter is_nested_loop (analyze it2 tree)
         \<and> mset (analyze it1 tree) = mset (analyze it2 tree)
         \<and> (length (filter is_unused_import (analyze it1 tree)) \<le> 1
              \<longrightarrow> analyze it1 tree = analyze it2 tree)"
proof -
  have m: "mset (it1 (unused_imports tree)) = mset (it2 (unused_imports tree))"
    using assms distinct_unused_imports by (rule mset_set_order)
  have 1: "filter is_nested_loop (analyze it1 tree) = filter is_nested_loop (analyze it2 tree)"
    by (simp only: filter_nested_analyze)
  have 2: "mset (analyze it1 tree) = mset (analyze it2 tree)"
    using m by (simp add: analyze_eq)
  have 3: "analyze it1 tree = analyze it2 tree"
    if "length (filter is_unused_import (analyze it1 tree)) \<le> 1"
  proof -
    from that have "length (it1 (unused_imports tree)) \<le> 1"
      by (simp add: filter_unused_analyze)
    with m have "it1 (unused_imports tree) = it2 (unused_imports tree)"
      by (rule short_mset_eq)
    then show ?thesis
      by (simp add: analyze_eq)
  qed
  from 1 2 3 show ?thesis
    by blast
qed

section \<open>Nested loops\<close>

text \<open>
  Claim C1: analyze emits a nested-loop finding at the line of a loop exactly when the
  subtree of that loop, the loop itself left out, holds another loop; a single loop
  with no loop in its body yields no nested-loop finding.

  The script does otherwise. For the script with one \<^verbatim>\<open>for\<close> statement at line 1 and no
  loop in its body (the only loop of the tree, none among its descendants) it returns
  one finding, for line 1.
\<close>

theorem C1_single_loop_reported:
  "analyze insertion_order single_loop = [''Inefficient nested loop found at line 1'']
   \<and> filter isFor (descendants (for_stmt 1 ''i'' ''numbers'' [Pass 2])) = []
   \<and> filter isFor (subnodes single_loop) = [for_stmt 1 ''i'' ''numbers'' [Pass 2]]"
  by code_simp

text \<open>
  Claim C2: for a loop nested directly in another, analyze emits exactly one nested-loop
  finding, at the outer loop's line; for three loops nested in each other it emits
  exactly two, at the lines of the outer two.

  The script reports the innermost loop as well: two findings for the double nest and
  three for the triple nest.
\<close>

theorem C2_innermost_loop_reported:
  "analyze insertion_order double_loop =
     [''Inefficient nested loop found at line 1'', ''Inefficient nested loop found at line 2'']
   \<and> analyze insertion_order triple_loop =
     [''Inefficient nested loop found at line 1'', ''Inefficient nested loop found at line 2'',
      ''Inefficient nested loop found at line 3'']"
  by code_simp

section \<open>Unused imports\<close>

text \<open>
  Claim C3, as the script has it: for every name \<open>N\<close>, the finding
  \<^verbatim>\<open>Unused import: N\<close> is emitted exactly once if \<open>N\<close> is the declared name of the first
  clause of a top-level \<^verbatim>\<open>import\<close> statement and no identifier reference anywhere in the
  tree has the name \<open>N\<close>, and not at all otherwise.
\<close>

theorem C3_unused_import_first_clause:
  assumes "set_order set_iter"
  shows "count_list (analyze set_iter tree) (unused_import_msg N) =
         (if N \<in> set (first_clause_names tree) \<and> N \<notin> set (referenced_names tree)
          then 1 else 0)"
proof -
  let ?us = "set_iter (unused_imports tree)"
  have us_set: "set ?us = set (unused_imports tree)"
    using assms distinct_unused_imports by (rule set_order_set)
  have us_distinct: "distinct ?us"
    using assms distinct_unused_imports by (rule set_order_distinct)
  have loops: "count_list (map nested_loop_msg ls) (unused_import_msg N) = 0" for ls
    by (induction ls) simp_all
  have "inj unused_import_msg"
    by (simp add: inj_def)
  then have "count_list (map unused_import_msg ?us) (unused_import_msg N) = count_list ?us N"
    by (rule count_list_map_inj)
  also have "\<dots> = (if N \<in> set ?us then 1 else 0)"
    using us_distinct by (rule count_list_distinct)
  finally have "count_list (analyze set_iter tree) (unused_import_msg N) =
      (if N \<in> set (unused_imports tree) then 1 else 0)"
    by (simp only: analyze_eq count_list_append loops us_set add_0)
  then show ?thesis
    by (simp only: set_unused_imports Diff_iff)
qed

theorem C3_unused_import_first_clause_witness:
  "set_order insertion_order
   \<and> ''a'' \<in> set (first_clause_names import_a_b)
   \<and> ''a'' \<notin> set (referenced_names import_a_b)
   \<and> count_list (analyze insertion_order import_a_b) (unused_import_msg ''a'') = 1
   \<and> count_list (analyze insertion_order import_a_b) (unused_import_msg ''b'') = 0"
proof -
  have a: "''a'' \<in> set (first_clause_names import_a_b)
      \<and> ''a'' \<notin> set (referenced_names import_a_b)"
    by code_simp
  have b: "''b'' \<notin> set (first_clause_names import_a_b)"
    by code_simp
  show ?thesis
    using set_order_insertion a b
      C3_unused_import_first_clause [OF set_order_insertion, of import_a_b "''a''"]
      C3_unused_import_first_clause [OF set_order_insertion, of import_a_b "''b''"]
    by simp
qed

text \<open>
  Read for every name that a top-level import statement introduces, claim C3 fails:
  \<^verbatim>\<open>import a, b\<close> introduces \<open>b\<close>, nothing refers to \<open>b\<close>, and no finding names
  \<open>b\<close>.
\<close>

theorem C3_counterexample:
  "''b'' \<in> set (spec_introduced_names import_a_b)
   \<and> ''b'' \<notin> set (referenced_names import_a_b)
   \<and> unused_import_msg ''b'' \<notin> set (analyze insertion_order import_a_b)"
  by code_simp

text \<open>
  Claim C4: if an identifier reference to \<open>X\<close> occurs anywhere in the tree, at any
  depth, then no unused-import finding for \<open>X\<close> is emitted. The example has the
  reference inside a function nested in a function.
\<close>

theorem C4_referenced_import_not_reported:
  assumes "set_order set_iter"
    and "Node (Name X) l ch \<in> set (subnodes tree)"
  shows "unused_import_msg X \<notin> set (analyze set_iter tree)"
proof -
  have "name_id (Node (Name X) l ch) \<in> set (referenced_names tree)"
    unfolding referenced_names_def using assms(2) by (simp del: name_id.simps)
  then have "X \<in> set (referenced_names tree)"
    by simp
  then show ?thesis
    by (simp add: unused_msg_in_analyze [OF assms(1)])
qed

theorem C4_referenced_import_not_reported_witness:
  "set_order insertion_order
   \<and> ''os'' \<in> set (first_clause_names nested_use)
   \<and> Node (Name ''os'') 4 [Load] \<in> set (subnodes nested_use)
   \<and> unused_import_msg ''os'' \<notin> set (analyze insertion_order nested_use)"
proof -
  have imp: "''os'' \<in> set (first_clause_names nested_use)"
    by code_simp
  have ref: "Node (Name ''os'') 4 [Load] \<in> set (subnodes nested_use)"
    by code_simp
  show ?thesis
    using set_order_insertion imp ref
      C4_referenced_import_not_reported [OF set_order_insertion ref]
    by simp
qed

text \<open>
  Claim C5: the detection is keyed on the declared module name and not on the alias.
  For a top-level \<^verbatim>\<open>import m as a\<close> with \<open>m\<close> referenced nowhere, the finding
  \<^verbatim>\<open>Unused import: m\<close> is emitted, whether or not \<open>a\<close> is referenced; and no finding
  names \<open>a\<close> unless \<open>a\<close> is itself the first declared name of a top-level import. The
  example is the notebook's own script with \<^verbatim>\<open>import numpy as np\<close>.
\<close>

theorem C5_module_name_reported:
  assumes "set_order set_iter"
    and "Node (Import (Alias m (Some a)) rest) l ch \<in> set (body tree)"
    and "m \<notin> set (referenced_names tree)"
  shows "unused_import_msg m \<in> set (analyze set_iter tree)
         \<and> (a \<notin> set (first_clause_names tree)
              \<longrightarrow> unused_import_msg a \<notin> set (analyze set_iter tree))"
proof -
  have "names0_name (Node (Import (Alias m (Some a)) rest) l ch) \<in> set (first_clause_names tree)"
    unfolding first_clause_names_def using assms(2) by (simp del: names0_name.simps)
  then have "m \<in> set (first_clause_names tree)"
    by simp
  with assms(3) show ?thesis
    by (simp add: unused_msg_in_analyze [OF assms(1)])
qed

theorem C5_module_name_reported_witness:
  "set_order insertion_order
   \<and> Node (Import (Alias ''numpy'' (Some ''np'')) []) 1 [alias_leaf 1] \<in> set (body example_script)
   \<and> ''numpy'' \<notin> set (referenced_names example_script)
   \<and> ''np'' \<notin> set (referenced_names example_script)
   \<and> ''np'' \<notin> set (first_clause_names example_script)
   \<and> unused_import_msg ''numpy'' \<in> set (analyze insertion_order example_script)
   \<and> unused_import_msg ''np'' \<notin> set (analyze insertion_order example_script)"
proof -
  have stmt: "Node (Import (Alias ''numpy'' (Some ''np'')) []) 1 [alias_leaf 1]
      \<in> set (body example_script)"
    by code_simp
  have unref: "''numpy'' \<notin> set (referenced_names example_script)"
    by code_simp
  have np: "''np'' \<notin> set (referenced_names example_script)
      \<and> ''np'' \<notin> set (first_clause_names example_script)"
    by code_simp
  show ?thesis
    using set_order_insertion stmt unref np
      C5_module_name_reported [OF set_order_insertion stmt unref]
    by simp
qed

section \<open>Order of the findings\<close>

text \<open>
  Claim C6, as the script has it: every nested-loop finding precedes every
  unused-import finding, and the nested-loop findings appear in the order in which
  \<^verbatim>\<open>ast.walk\<close> meets their loops, which is level by level from the root and from left
  to right within a level.
\<close>

theorem C6_loops_first_in_level_order:
  "filter is_nested_loop (analyze set_iter tree) =
     map nested_loop_msg (map lineno (filter reported_loop (level_order [tree])))
   \<and> (\<forall>i j. i < length (analyze set_iter tree) \<and> j < length (analyze set_iter tree)
          \<and> is_nested_loop (analyze set_iter tree ! i)
          \<and> is_unused_import (analyze set_iter tree ! j) \<longrightarrow> i < j)"
proof (intro conjI allI impI)
  show "filter is_nested_loop (analyze set_iter tree) =
      map nested_loop_msg (map lineno (filter reported_loop (level_order [tree])))"
    by (simp only: filter_nested_analyze walk_level_order)
next
  fix i j
  let ?ls = "map nested_loop_msg (map lineno (filter reported_loop (walk tree)))"
  let ?us = "map unused_import_msg (set_iter (unused_imports tree))"
  assume h: "i < length (analyze set_iter tree) \<and> j < length (analyze set_iter tree)
      \<and> is_nested_loop (analyze set_iter tree ! i)
      \<and> is_unused_import (analyze set_iter tree ! j)"
  have r: "analyze set_iter tree = ?ls @ ?us"
    by (rule analyze_eq)
  have ls: "\<forall>x \<in> set ?ls. \<not> is_unused_import x"
    by (simp add: image_iff)
  have us: "\<forall>y \<in> set ?us. \<not> is_nested_loop y"
    by (simp add: image_iff)
  from h have "i < length (?ls @ ?us)" "is_nested_loop ((?ls @ ?us) ! i)"
    "j < length (?ls @ ?us)" "is_unused_import ((?ls @ ?us) ! j)"
    unfolding r by blast+
  with ls us show "i < j"
    by (rule two_part_order)
qed

theorem C6_loops_first_in_level_order_witness:
  "filter is_nested_loop (analyze insertion_order example_script) =
     map nested_loop_msg (map lineno (filter reported_loop (level_order [example_script])))
   \<and> (0::nat) < length (analyze insertion_order example_script)
   \<and> (2::nat) < length (analyze insertion_order example_script)
   \<and> is_nested_loop (analyze insertion_order example_script ! 0)
   \<and> is_unused_import (analyze insertion_order example_script ! 2)
   \<and> (0::nat) < 2"
proof -
  have h: "(0::nat) < length (analyze insertion_order example_script)
      \<and> (2::nat) < length (analyze insertion_order example_script)
      \<and> is_nested_loop (analyze insertion_order example_script ! 0)
      \<and> is_unused_import (analyze insertion_order example_script ! 2)"
    by code_simp
  have c: "filter is_nested_loop (analyze insertion_order example_script) =
      map nested_loop_msg (map lineno (filter reported_loop (level_order [example_script])))"
    using C6_loops_first_in_level_order [of insertion_order example_script] by (rule conjunct1)
  have o: "(0::nat) < 2"
    using C6_loops_first_in_level_order [of insertion_order example_script] h by blast
  from h c o show ?thesis
    by blast
qed

text \<open>
  A pre-order visit gives another order. In the script with a triple nest at lines 1
  to 3 followed by a double nest at lines 5 and 6, the finding for line 5 comes before
  the finding for line 2, whereas pre-order meets the loop of line 2 first. This is so
  for the loops the script reports and for the loops the specification calls nested
  (lines 1, 2 and 5).
\<close>

theorem C6_counterexample:
  "filter is_nested_loop (analyze insertion_order two_nests) \<noteq> preorder_loop_findings two_nests
   \<and> filter is_nested_loop (analyze insertion_order two_nests) =
       map nested_loop_msg [1, 5, 2, 6, 3]
   \<and> preorder_loop_findings two_nests = map nested_loop_msg [1, 2, 3, 5, 6]
   \<and> map lineno (filter spec_nested_loop (subnodes two_nests)) = [1, 2, 5]"
  by code_simp

section \<open>Errors and reruns\<close>

text \<open>
  Claim C7: when the text of the file does not parse, the script fails with the syntax
  error of the parse step; no list of findings, partial or not, is returned.
\<close>

theorem C7_syntax_error_aborts:
  assumes "fs file_path = Some text"
    and "parse text = Inl SyntaxError"
  shows "analyze_python_script set_iter parse fs file_path = Inl SyntaxError"
  using assms by (simp add: analyze_python_script_def)

theorem C7_syntax_error_aborts_witness:
  "example_fs ''broken.py'' = Some ''print(''
   \<and> parse_fragment ''print('' = Inl SyntaxError
   \<and> analyze_python_script insertion_order parse_fragment example_fs ''broken.py''
       = Inl SyntaxError"
proof -
  have f: "example_fs ''broken.py'' = Some ''print(''"
    by (simp add: example_fs_def)
  have p: "parse_fragment ''print('' = Inl SyntaxError"
    by (simp add: parse_fragment_def two_imports_text_def)
  show ?thesis
    using f p C7_syntax_error_aborts [of example_fs "''broken.py''" "''print(''" parse_fragment insertion_order] by simp
qed

text \<open>
  Claim C8, as the script has it: two runs on the same text both fail with the same
  error, or both return findings with the same nested-loop findings in the same order
  and the same findings overall, each as often; the two sequences are equal when at
  most one import is unused. With two or more unused imports the order among their
  findings is the order in which the set hands them out.
\<close>

theorem C8_same_findings_up_to_set_order:
  assumes "set_order it1" and "set_order it2"
  shows "(\<exists>e. analyze_python_script it1 parse fs file_path = Inl e
              \<and> analyze_python_script it2 parse fs file_path = Inl e)
         \<or> (\<exists>r1 r2. analyze_python_script it1 parse fs file_path = Inr r1
              \<and> analyze_python_script it2 parse fs file_path = Inr r2
              \<and> filter is_nested_loop r1 = filter is_nested_loop r2
              \<and> mset r1 = mset r2
              \<and> (length (filter is_unused_import r1) \<le> 1 \<longrightarrow> r1 = r2))"
proof (cases "fs file_path")
  case None
  then show ?thesis
    by (simp add: analyze_python_script_def)
next
  case (Some src)
  show ?thesis
  proof (cases "parse src")
    case (Inl e)
    with Some show ?thesis
      by (simp add: analyze_python_script_def)
  next
    case (Inr tree)
    with Some analyze_two_orders [OF assms, of tree] show ?thesis
      by (simp add: analyze_python_script_def)
  qed
qed

theorem C8_same_findings_up_to_set_order_witness:
  "set_order insertion_order \<and> set_order reverse_order
   \<and> mset [''Unused import: a'', ''Unused import: b'']
       = mset [''Unused import: b'', ''Unused import: a'']
   \<and> analyze_python_script insertion_order parse_fragment example_fs ''one_line.py''
       = Inr [''Unused import: a'']
   \<and> analyze_python_script reverse_order parse_fragment example_fs ''one_line.py''
       = Inr [''Unused import: a'']
   \<and> analyze_python_script insertion_order parse_fragment example_fs ''broken.py''
       = Inl SyntaxError
   \<and> analyze_python_script reverse_order parse_fragment example_fs ''broken.py''
       = Inl SyntaxError"
proof -
  have two1: "analyze_python_script insertion_order parse_fragment example_fs ''example_script.py''
      = Inr [''Unused import: a'', ''Unused import: b'']"
    by code_simp
  have two2: "analyze_python_script reverse_order parse_fragment example_fs ''example_script.py''
      = Inr [''Unused import: b'', ''Unused import: a'']"
    by code_simp
  have one: "analyze_python_script insertion_order parse_fragment example_fs ''one_line.py''
      = Inr [''Unused import: a'']"
    by code_simp
  have bad: "analyze_python_script insertion_order parse_fragment example_fs ''broken.py''
      = Inl SyntaxError"
    by code_simp
  have short: "length (filter is_unused_import [''Unused import: a'']) \<le> 1"
    by code_simp
  note inst = C8_same_findings_up_to_set_order [OF set_order_insertion set_order_reverse,
      of parse_fragment example_fs]
  from inst [of "''example_script.py''"] two1 two2
  have m: "mset [''Unused import: a'', ''Unused import: b'']
      = mset [''Unused import: b'', ''Unused import: a'']"
    by auto
  from inst [of "''one_line.py''"] one short
  have one': "analyze_python_script reverse_order parse_fragment example_fs ''one_line.py''
      = Inr [''Unused import: a'']"
    by auto
  from inst [of "''broken.py''"] bad
  have bad': "analyze_python_script reverse_order parse_fragment example_fs ''broken.py''
      = Inl SyntaxError"
    by auto
  from set_order_insertion set_order_reverse m one one' bad bad' show ?thesis
    by blast
qed

text \<open>
  Two runs need not return the same sequence: for the script \<^verbatim>\<open>import a\<close>, \<^verbatim>\<open>import b\<close>
  the set of unused imports has two elements, and the two orders in which it can be
  iterated give two different results.
\<close>

theorem C8_counterexample:
  "set_order insertion_order \<and> set_order reverse_order
   \<and> analyze_python_script insertion_order parse_fragment example_fs ''example_script.py''
       = Inr [''Unused import: a'', ''Unused import: b'']
   \<and> analyze_python_script reverse_order parse_fragment example_fs ''example_script.py''
       = Inr [''Unused import: b'', ''Unused import: a'']
   \<and> analyze_python_script insertion_order parse_fragment example_fs ''example_script.py''
       \<noteq> analyze_python_script reverse_order parse_fragment example_fs ''example_script.py''"
proof -
  have a: "analyze_python_script insertion_order parse_fragment example_fs ''example_script.py''
      = Inr [''Unused import: a'', ''Unused import: b'']"
    by code_simp
  have b: "analyze_python_script reverse_order parse_fragment example_fs ''example_script.py''
      = Inr [''Unused import: b'', ''Unused import: a'']"
    by code_simp
  show ?thesis
    by (simp add: set_order_insertion set_order_reverse a b)
qed

text \<open>
  Claim C9, as the script has it: only the first clause of each top-level plain
  \<^verbatim>\<open>import\<close> statement is collected. A name that is not the declared name of the first
  clause of any top-level plain \<^verbatim>\<open>import\<close> statement is never reported, referenced or
  not. In the example \<open>b\<close> is a second clause and \<open>y\<close> comes from a
  \<^verbatim>\<open>from ... import\<close>.
\<close>

theorem C9_only_first_clause_collected:
  assumes "set_order set_iter"
    and "N \<notin> set (first_clause_names tree)"
  shows "unused_import_msg N \<notin> set (analyze set_iter tree)"
  using assms(2) by (simp add: unused_msg_in_analyze [OF assms(1)])

theorem C9_only_first_clause_collected_witness:
  "set_order insertion_order
   \<and> ''b'' \<in> set (spec_introduced_names later_clauses)
   \<and> ''y'' \<in> set (spec_introduced_names later_clauses)
   \<and> ''b'' \<notin> set (first_clause_names later_clauses)
   \<and> ''y'' \<notin> set (first_clause_names later_clauses)
   \<and> ''b'' \<notin> set (referenced_names later_clauses)
   \<and> ''y'' \<notin> set (referenced_names later_clauses)
   \<and> unused_import_msg ''b'' \<notin> set (analyze insertion_order later_clauses)
   \<and> unused_import_msg ''y'' \<notin> set (analyze insertion_order later_clauses)"
proof -
  have names: "''b'' \<in> set (spec_introduced_names later_clauses)
      \<and> ''y'' \<in> set (spec_introduced_names later_clauses)
      \<and> ''b'' \<notin> set (referenced_names later_clauses)
      \<and> ''y'' \<notin> set (referenced_names later_clauses)"
    by code_simp
  have b: "''b'' \<notin> set (first_clause_names later_clauses)"
    by code_simp
  have y: "''y'' \<notin> set (first_clause_names later_clauses)"
    by code_simp
  from set_order_insertion names b y
    C9_only_first_clause_collected [OF set_order_insertion b]
    C9_only_first_clause_collected [OF set_order_insertion y]
  show ?thesis
    by blast
qed

text \<open>
  A name bound by a later clause can still be reported, through another statement: in
  \<^verbatim>\<open>import a, b\<close> followed by \<^verbatim>\<open>import b\<close> the name \<open>b\<close> is bound by the second clause
  of the first statement, nothing refers to it, and it is the first clause of the second
  statement, so the finding for \<open>b\<close> is emitted, in whatever order the set is iterated.
\<close>

theorem C9_counterexample:
  "''b'' \<in> set (spec_later_names import_b_again)
   \<and> ''b'' \<notin> set (referenced_names import_b_again)
   \<and> unused_import_msg ''b'' \<in> set (analyze insertion_order import_b_again)
   \<and> unused_import_msg ''b'' \<in> set (analyze reverse_order import_b_again)"
  by code_simp

text \<open>
  Claim C10: only \<^verbatim>\<open>for\<close> statements count as loops. Replacing every \<^verbatim>\<open>while\<close> statement
  by a node that is no loop changes no finding, so a \<^verbatim>\<open>while\<close> in the body of a
  \<^verbatim>\<open>for\<close> is never the reason for a finding; and a tree without any \<^verbatim>\<open>for\<close> statement,
  however its \<^verbatim>\<open>while\<close> statements nest, has no nested-loop finding.
\<close>

theorem C10_while_is_no_loop:
  "analyze set_iter (demote_while tree) = analyze set_iter tree
   \<and> (\<not> list_ex isFor (subnodes tree)
        \<longrightarrow> filter is_nested_loop (analyze set_iter tree) = [])"
proof (intro conjI impI)
  show "analyze set_iter (demote_while tree) = analyze set_iter tree"
    by (rule analyze_demote_while)
next
  assume "\<not> list_ex isFor (subnodes tree)"
  then have "\<forall>n \<in> set (walk tree). \<not> reported_loop n"
    by (simp add: list_ex_iff set_walk reported_loop_def)
  then have "filter reported_loop (walk tree) = []"
    by (simp add: filter_empty_conv)
  then show "filter is_nested_loop (analyze set_iter tree) = []"
    by (simp add: filter_nested_analyze)
qed

theorem C10_while_is_no_loop_witness:
  "\<not> list_ex isFor (subnodes while_in_while)
   \<and> list_ex isWhile (descendants (while_stmt 1 ''a'' [while_stmt 2 ''b'' [Pass 3]]))
   \<and> filter is_nested_loop (analyze insertion_order while_in_while) = []
   \<and> analyze insertion_order (demote_while while_in_for) = analyze insertion_order while_in_for
   \<and> \<not> list_ex isWhile (subnodes (demote_while while_in_for))"
proof -
  have w: "\<not> list_ex isFor (subnodes while_in_while)"
    by code_simp
  have d: "list_ex isWhile (descendants (while_stmt 1 ''a'' [while_stmt 2 ''b'' [Pass 3]]))
      \<and> \<not> list_ex isWhile (subnodes (demote_while while_in_for))"
    by code_simp
  from w d C10_while_is_no_loop [of insertion_order while_in_while]
    C10_while_is_no_loop [of insertion_order while_in_for]
  show ?thesis
    by blast
qed

end
